theory Spec2Isabelle
  imports Complex_Main
begin

section \<open>Conventions of the embedding\<close>

text \<open>
  The Go packages \<^verbatim>\<open>ewma\<close>, \<^verbatim>\<open>tracker\<close> and \<^verbatim>\<open>probar\<close> of headway are embedded
  function by function.

  \<^item> A \<^verbatim>\<open>float64\<close> is a \<^typ>\<open>real\<close>: finite, not NaN, computed without rounding.
    HOL's \<open>x / 0\<close> is \<open>0\<close> where Go yields an infinity or NaN, so every theorem about
    a quotient is stated where its divisor is not zero.
  \<^item> A \<^verbatim>\<open>time.Duration\<close> is an \<^typ>\<open>int\<close> of nanoseconds and a \<^verbatim>\<open>time.Time\<close> the
    reading of the monotonic clock, in nanoseconds. Sums and differences of
    clock readings are taken to stay inside \<^verbatim>\<open>int64\<close> (292 years); the one
    product that leaves \<^verbatim>\<open>int64\<close> for ordinary readings, in \<^verbatim>\<open>Stats\<close>, wraps
    around as Go's does.
  \<^item> Every call of \<^verbatim>\<open>time.Now\<close> and \<^verbatim>\<open>time.Since\<close> reads the clock; the reading is
    an argument of the operation that makes the call.
  \<^item> A method with a pointer receiver takes the struct and returns it updated.
    The mutex makes each method body atomic, so the methods are modelled one
    call at a time.
  \<^item> A nil-able pointer is an \<^typ>\<open>'a option\<close>.
\<close>

section \<open>Package ewma\<close>

definition averageMetricAge :: real where
  "averageMetricAge = 5.0"

definition decay :: real where
  "decay = 2 / (averageMetricAge + 1)"

record average =
  a_value :: real

definition ewma_New :: "real \<Rightarrow> average" where
  "ewma_New initial = \<lparr>a_value = initial\<rparr>"

definition Add :: "average \<Rightarrow> real \<Rightarrow> average" where
  "Add a v =
     (if a_value a = 0 then a\<lparr>a_value := v\<rparr>
      else a\<lparr>a_value := (v * decay) + (a_value a * (1 - decay))\<rparr>)"

definition Value :: "average \<Rightarrow> real" where
  "Value a = a_value a"

section \<open>Package time (the parts the tracker uses)\<close>

definition Nanosecond :: int where
  "Nanosecond = 1"

definition Millisecond :: int where
  "Millisecond = 1000000 * Nanosecond"

definition Second :: int where
  "Second = 1000 * Millisecond"

text \<open>
  \<^verbatim>\<open>Duration.Seconds\<close> returns \<^verbatim>\<open>float64(d / Second) + float64(d % Second) / 1e9\<close>,
  with Go's truncating quotient and remainder; over the reals that is \<open>d / 10\<^sup>9\<close>.
\<close>

definition Seconds :: "int \<Rightarrow> real" where
  "Seconds d = real_of_int d / 1000000000"

text \<open>
  \<^verbatim>\<open>int64\<close> arithmetic wraps around (two's complement).
\<close>

definition wrap64 :: "int \<Rightarrow> int" where
  "wrap64 n = (n + 2 ^ 63) mod 2 ^ 64 - 2 ^ 63"

text \<open>
  The conversion \<^verbatim>\<open>time.Duration(x)\<close> of a \<^verbatim>\<open>float64\<close> truncates toward zero.
  Where the truncated value is outside \<^verbatim>\<open>int64\<close> the Go specification leaves
  the result to the implementation: \<open>oor\<close> stands for that result.
\<close>

definition trunc :: "real \<Rightarrow> int" where
  "trunc x = (if 0 \<le> x then \<lfloor>x\<rfloor> else \<lceil>x\<rceil>)"

definition float64_to_int64 :: "int \<Rightarrow> real \<Rightarrow> int" where
  "float64_to_int64 oor x =
     (if - (2 ^ 63) \<le> trunc x \<and> trunc x < 2 ^ 63 then trunc x else oor)"

definition MaxFloat64 :: real where
  "MaxFloat64 = (2 ^ 53 - 1) * 2 ^ 971"

section \<open>Package tracker\<close>

type_synonym ByteAmount = int

record measurement =
  m_time :: int
  m_value :: real

text \<open>
  The finish callbacks are closures without arguments or results: they act on
  the state outside the tracker, of type \<open>'w\<close>. The mutex has no field.
\<close>

record 'w tracker =
  startTime :: int
  t_value :: real
  t_max :: real
  measurementInterval :: int
  paused :: bool
  onFinish :: "('w \<Rightarrow> 'w) list"
  duration :: int
  speed :: real
  minSpeed :: real
  maxSpeed :: real
  speedAverage :: average
  secondsLeftAverage :: average
  lastMeasurement :: "measurement option"
  byteAmount :: "ByteAmount option"

record CompletionStats =
  cs_duration :: int
  cs_averageSpeed :: real
  cs_minSpeed :: real
  cs_maxSpeed :: real
  cs_byteAmount :: "ByteAmount option"

record Stats =
  s_value :: real
  s_speed :: real
  s_timeLeft :: "int option"
  s_byteAmount :: "ByteAmount option"

datatype Units = UnitsNone | UnitsBytes

record Opts =
  o_ByteAmount :: "ByteAmount option"
  o_Value :: real
  o_Units :: Units
  o_MeasurementInterval :: int

definition ensureDefaults :: "Opts \<Rightarrow> Opts" where
  "ensureDefaults opts =
     (if o_MeasurementInterval opts = 0
      then opts\<lparr>o_MeasurementInterval := 1 * Second\<rparr> else opts)"

definition New :: "int \<Rightarrow> Opts \<Rightarrow> 'w tracker" where
  "New now opts0 =
     (let opts = ensureDefaults opts0 in
      \<lparr>startTime = now,
       t_value = o_Value opts,
       t_max = 0,
       measurementInterval = o_MeasurementInterval opts,
       paused = False,
       onFinish = [],
       duration = 0,
       speed = 0,
       minSpeed = MaxFloat64,
       maxSpeed = 0,
       speedAverage = ewma_New 0,
       secondsLeftAverage = ewma_New 0,
       lastMeasurement = None,
       byteAmount = o_ByteAmount opts\<rparr>)"

definition lockedResetMeasurement :: "'w tracker \<Rightarrow> 'w tracker" where
  "lockedResetMeasurement t =
     t\<lparr>lastMeasurement := None,
       speed := 0,
       minSpeed := MaxFloat64,
       maxSpeed := 0,
       speedAverage := ewma_New 0,
       secondsLeftAverage := ewma_New 0\<rparr>"

text \<open>
  \<open>now\<close> is the reading of \<^verbatim>\<open>time.Now()\<close>, \<open>now2\<close> the later one inside
  \<^verbatim>\<open>time.Since(lastMeasurement.time)\<close>.
\<close>

definition lockedUpdateMeasurement ::
    "int \<Rightarrow> int \<Rightarrow> real \<Rightarrow> 'w tracker \<Rightarrow> 'w tracker" where
  "lockedUpdateMeasurement now now2 v t0 =
     (let t = (if paused t0 then lockedResetMeasurement t0 else t0) in
      case lastMeasurement t of
        None \<Rightarrow> t\<lparr>lastMeasurement := Some \<lparr>m_time = now, m_value = v\<rparr>\<rparr>
      | Some lm \<Rightarrow>
          let sinceLast = now2 - m_time lm in
          if sinceLast < measurementInterval t then t
          else
            let t1 = t\<lparr>duration := duration t + sinceLast\<rparr>;
                valueDelta = v - m_value lm
            in
            if valueDelta < 0 then lockedResetMeasurement t1
            else
              let t2 = t1\<lparr>speed := valueDelta / Seconds sinceLast\<rparr>;
                  t3 = t2\<lparr>speedAverage := Add (speedAverage t2) (speed t2)\<rparr>;
                  t4 = (if speed t3 > maxSpeed t3 then t3\<lparr>maxSpeed := speed t3\<rparr> else t3);
                  t5 = (if speed t4 < minSpeed t4 then t4\<lparr>minSpeed := speed t4\<rparr> else t4);
                  secondsLeft = (1.0 - t_value t5) / Value (speedAverage t5);
                  t6 = t5\<lparr>secondsLeftAverage := Add (secondsLeftAverage t5) secondsLeft\<rparr>
              in t6\<lparr>lastMeasurement := Some \<lparr>m_time = now, m_value = v\<rparr>\<rparr>)"

definition clamp :: "real \<Rightarrow> real" where
  "clamp v = (if v > 1.0 then 1.0 else if v < 0.0 then 0.0 else v)"

definition SetProgress :: "real \<Rightarrow> int \<Rightarrow> int \<Rightarrow> 'w tracker \<Rightarrow> 'w tracker" where
  "SetProgress v0 now now2 t =
     (let v = clamp v0 in (lockedUpdateMeasurement now now2 v t)\<lparr>t_value := v\<rparr>)"

definition Pause :: "'w tracker \<Rightarrow> 'w tracker" where
  "Pause t = lockedResetMeasurement (t\<lparr>paused := True\<rparr>)"

definition Resume :: "'w tracker \<Rightarrow> 'w tracker" where
  "Resume t = lockedResetMeasurement (t\<lparr>paused := False\<rparr>)"

definition Progress :: "'w tracker \<Rightarrow> real" where
  "Progress t = t_value t"

definition Duration :: "'w tracker \<Rightarrow> int" where
  "Duration t = duration t"

definition Paused :: "'w tracker \<Rightarrow> bool" where
  "Paused t = paused t"

definition OnFinish :: "('w \<Rightarrow> 'w) \<Rightarrow> 'w tracker \<Rightarrow> 'w tracker" where
  "OnFinish callback t = t\<lparr>onFinish := onFinish t @ [callback]\<rparr>"

text \<open>
  \<^verbatim>\<open>Stats\<close>: \<open>oor\<close> is what the platform's conversion gives for a \<^verbatim>\<open>float64\<close>
  outside \<^verbatim>\<open>int64\<close>; the product with \<^verbatim>\<open>time.Millisecond\<close> wraps in \<^verbatim>\<open>int64\<close>.
\<close>

definition Stats :: "int \<Rightarrow> 'w tracker \<Rightarrow> Stats option" where
  "Stats oor t =
     (if speed t = 0.0 \<or> lastMeasurement t = None then None
      else
        let secondsLeft = (1.0 - t_value t) / Value (speedAverage t);
            timeLeftVal = wrap64 (Millisecond * float64_to_int64 oor (secondsLeft * 1000.0));
            timeLeft = (if timeLeftVal < 0 then None else Some timeLeftVal)
        in Some \<lparr>s_value = t_value t,
                 s_speed = Value (speedAverage t),
                 s_timeLeft = timeLeft,
                 s_byteAmount = byteAmount t\<rparr>)"

definition Speed :: "Stats \<Rightarrow> real" where
  "Speed s = s_speed s"


text \<open>
  \<^verbatim>\<open>Finish\<close> runs the callbacks in the order of the slice, on the outside state
  \<open>w\<close>, then takes the lock. \<open>now\<close> is the reading inside \<^verbatim>\<open>time.Since\<close>.
\<close>

definition Finish :: "int \<Rightarrow> 'w tracker \<Rightarrow> 'w \<Rightarrow> 'w \<times> 'w tracker \<times> CompletionStats" where
  "Finish now t w =
     (let w' = fold (\<lambda>cb. cb) (onFinish t) w;
          t' = (case lastMeasurement t of
                  None \<Rightarrow> t
                | Some lm \<Rightarrow> t\<lparr>duration := duration t + (now - m_time lm),
                               lastMeasurement := None\<rparr>)
      in (w', t',
          \<lparr>cs_duration = duration t',
           cs_averageSpeed = 1.0 / Seconds (duration t'),
           cs_minSpeed = minSpeed t',
           cs_maxSpeed = maxSpeed t',
           cs_byteAmount = byteAmount t'\<rparr>))"

subsection \<open>Sequences of calls\<close>

text \<open>
  The calls that change a tracker or the state outside it. \<^verbatim>\<open>Progress\<close>,
  \<^verbatim>\<open>Duration\<close>, \<^verbatim>\<open>Paused\<close>, \<^verbatim>\<open>ByteAmount\<close> and \<^verbatim>\<open>Stats\<close> only read.
\<close>

datatype 'w call =
    CallSetProgress real int int
  | CallPause
  | CallResume
  | CallOnFinish "'w \<Rightarrow> 'w"
  | CallFinish int

fun do_call :: "'w call \<Rightarrow> 'w tracker \<times> 'w \<Rightarrow> 'w tracker \<times> 'w" where
  "do_call (CallSetProgress v now now2) (t, w) = (SetProgress v now now2 t, w)"
| "do_call CallPause (t, w) = (Pause t, w)"
| "do_call CallResume (t, w) = (Resume t, w)"
| "do_call (CallOnFinish cb) (t, w) = (OnFinish cb t, w)"
| "do_call (CallFinish now) (t, w) = (case Finish now t w of (w', t', cs) \<Rightarrow> (t', w'))"

definition do_calls :: "'w call list \<Rightarrow> 'w tracker \<times> 'w \<Rightarrow> 'w tracker \<times> 'w" where
  "do_calls cs s = fold do_call cs s"

subsection \<open>The loop of the tests\<close>







subsection \<open>The invariant of the speeds\<close>

definition speed_inv :: "'w tracker \<Rightarrow> bool" where
  "speed_inv t =
     (0 < measurementInterval t \<and> 0 \<le> speed t \<and> 0 \<le> Value (speedAverage t)
      \<and> (speed t = 0 \<or> 0 < Value (speedAverage t)))"

section \<open>Package probar\<close>

record probar_Opts =
  p_RefreshRate :: int
  p_TimeBoxWidth :: int
  p_SpeedBoxWidth :: int
  p_BarWidth :: int
  p_Width :: int
  p_ShowSpeed :: bool
  p_ShowTimeLeft :: bool

definition probar_ensureDefaults :: "probar_Opts \<Rightarrow> probar_Opts" where
  "probar_ensureDefaults opts0 =
     (let o1 = (if p_RefreshRate opts0 = 0 then opts0\<lparr>p_RefreshRate := 200 * Millisecond\<rparr>
                else opts0);
          o2 = (if p_BarWidth o1 = 0 then o1\<lparr>p_BarWidth := 20\<rparr> else o1);
          o3 = (if p_SpeedBoxWidth o2 = 0 then o2\<lparr>p_SpeedBoxWidth := 13\<rparr> else o2);
          o4 = (if p_TimeBoxWidth o3 = 0 then o3\<lparr>p_TimeBoxWidth := 13\<rparr> else o3)
      in (if p_Width o4 = 0 then o4\<lparr>p_Width := 80\<rparr> else o4))"

text \<open>
  \<^verbatim>\<open>finishChan\<close> is only ever closed and received from: its state is open or
  closed. Closing a closed channel panics, as \<^verbatim>\<open>strings.Repeat\<close> does on a
  negative count; a panic ends the program.
\<close>

datatype chan = Open | Closed

datatype fault = CloseOfClosedChannel | NegativeRepeatCount | NotEnabled

text \<open>
  The fields \<^verbatim>\<open>tracker\<close>, \<^verbatim>\<open>theme\<close> and \<^verbatim>\<open>units\<close> of the bar are read by \<^verbatim>\<open>write\<close>
  alone, to compose the line; see \<open>bar_write\<close>.
\<close>

record bar =
  b_opts :: probar_Opts
  b_scale :: real
  b_finishChan :: chan
  b_finished :: bool
  b_lines :: "string list"
  b_prefix :: string
  b_postfix :: string

definition Repeat :: "string \<Rightarrow> int \<Rightarrow> fault + string" where
  "Repeat s count =
     (if count < 0 then Inl NegativeRepeatCount else Inr (concat (replicate (nat count) s)))"

definition close_chan :: "chan \<Rightarrow> fault + chan" where
  "close_chan c = (case c of Open \<Rightarrow> Inr Closed | Closed \<Rightarrow> Inl CloseOfClosedChannel)"

text \<open>
  \<^verbatim>\<open>opts.Printf\<close> is the sink of the bar: the functions take and return the bar
  with the list of the strings printed so far.
\<close>

definition clear :: "bar \<times> string list \<Rightarrow> fault + bar \<times> string list" where
  "clear bp =
     (case bp of (b, printed) \<Rightarrow>
        (case Repeat '' '' (p_Width (b_opts b)) of
           Inl f \<Rightarrow> Inl f
         | Inr spaces \<Rightarrow> Inr (b, printed @ [CHR 0x0D # spaces @ [CHR 0x0D]])))"

text \<open>
  \<^verbatim>\<open>finish\<close> in two parts. The first tests the flag and closes the channel; it
  says whether the call goes on. The second sets the flag and clears the line.
  The writer can receive from the channel between the two: its \<^verbatim>\<open>select\<close>
  takes no lock.
\<close>

definition finish_begin :: "bar \<Rightarrow> fault + bar \<times> bool" where
  "finish_begin b =
     (if b_finished b then Inr (b, False)
      else
        (case close_chan (b_finishChan b) of
           Inl f \<Rightarrow> Inl f
         | Inr c \<Rightarrow> Inr (b\<lparr>b_finishChan := c\<rparr>, True)))"

definition finish_end :: "bar \<times> string list \<Rightarrow> fault + bar \<times> string list" where
  "finish_end bp = (case bp of (b, printed) \<Rightarrow> clear (b\<lparr>b_finished := True\<rparr>, printed))"

definition finish :: "bar \<times> string list \<Rightarrow> fault + bar \<times> string list" where
  "finish bp =
     (case bp of (b, printed) \<Rightarrow>
        (case finish_begin b of
           Inl f \<Rightarrow> Inl f
         | Inr (b', goes_on) \<Rightarrow> if goes_on then finish_end (b', printed) else Inr (b', printed)))"

text \<open>
  \<^verbatim>\<open>write\<close> flushes the pending lines and prints the carriage return with the
  line it composes from the tracker's snapshot, the theme and the options
  (\<open>out + end\<close> in the source). The composed line is the argument \<open>composed\<close>.
\<close>

definition bar_write :: "string \<Rightarrow> bar \<times> string list \<Rightarrow> fault + bar \<times> string list" where
  "bar_write composed bp =
     (case bp of (b, printed) \<Rightarrow>
        (case (if length (b_lines b) > 0
               then (case clear (b, printed) of
                       Inl f \<Rightarrow> Inl f
                     | Inr (b1, p1) \<Rightarrow>
                         Inr (b1\<lparr>b_lines := []\<rparr>,
                              p1 @ map (\<lambda>line. line @ [CHR 0x0A]) (b_lines b1)))
               else Inr (b, printed)) of
           Inl f \<Rightarrow> Inl f
         | Inr (b2, p2) \<Rightarrow> Inr (b2, p2 @ [CHR 0x0D # composed])))"

definition update :: "string \<Rightarrow> bar \<times> string list \<Rightarrow> fault + bar \<times> string list" where
  "update composed bp = bar_write composed bp"

definition Println :: "string \<Rightarrow> bar \<Rightarrow> bar" where
  "Println s b = b\<lparr>b_lines := b_lines b @ [s]\<rparr>"

definition SetPrefix :: "string \<Rightarrow> bar \<Rightarrow> bar" where
  "SetPrefix prefix b = b\<lparr>b_prefix := prefix\<rparr>"

definition SetPostfix :: "string \<Rightarrow> bar \<Rightarrow> bar" where
  "SetPostfix postfix b = b\<lparr>b_postfix := postfix\<rparr>"

definition SetScale :: "real \<Rightarrow> bar \<Rightarrow> bar" where
  "SetScale scale b = b\<lparr>b_scale := scale\<rparr>"

text \<open>
  The bar runs beside its callers. The goroutine \<^verbatim>\<open>writer\<close> is at its first
  \<^verbatim>\<open>update\<close>, in the \<^verbatim>\<open>select\<close>, on its way to \<^verbatim>\<open>update\<close> after the timer, or has
  returned. \<open>sys_finishing\<close> says that a call of \<^verbatim>\<open>finish\<close> has closed the channel
  and still holds the mutex. An event is one step of a call of \<^verbatim>\<open>finish\<close>, of
  the writer or of a caller; \<^verbatim>\<open>update\<close> and the setters take the mutex, so they
  wait while a call of \<^verbatim>\<open>finish\<close> holds it, and the \<^verbatim>\<open>select\<close> receives from
  \<^verbatim>\<open>finishChan\<close> only once it is closed. An event that cannot happen in a state
  is \<open>NotEnabled\<close> there.
\<close>

datatype pc = Starting | Selecting | Updating | Returned

record system =
  sys_bar :: bar
  sys_printed :: "string list"
  sys_writer :: pc
  sys_finishing :: bool

datatype event =
    FinishEnter
  | FinishLeave
  | WriterUpdate string
  | SelectTimer
  | SelectFinishChan
  | CallPrintln string
  | CallSetPrefix string
  | CallSetPostfix string
  | CallSetScale real

definition locked ::
    "(bar \<times> string list \<Rightarrow> fault + bar \<times> string list) \<Rightarrow> system \<Rightarrow> fault + system" where
  "locked body s =
     (if sys_finishing s then Inl NotEnabled
      else
        (case body (sys_bar s, sys_printed s) of
           Inl f \<Rightarrow> Inl f
         | Inr (b, printed) \<Rightarrow> Inr (s\<lparr>sys_bar := b, sys_printed := printed\<rparr>)))"

fun step :: "event \<Rightarrow> system \<Rightarrow> fault + system" where
  "step FinishEnter s =
     (if sys_finishing s then Inl NotEnabled
      else
        (case finish_begin (sys_bar s) of
           Inl f \<Rightarrow> Inl f
         | Inr (b, goes_on) \<Rightarrow> Inr (s\<lparr>sys_bar := b, sys_finishing := goes_on\<rparr>)))"
| "step FinishLeave s =
     (if sys_finishing s
      then (case finish_end (sys_bar s, sys_printed s) of
              Inl f \<Rightarrow> Inl f
            | Inr (b, printed) \<Rightarrow>
                Inr (s\<lparr>sys_bar := b, sys_printed := printed, sys_finishing := False\<rparr>))
      else Inl NotEnabled)"
| "step (WriterUpdate composed) s =
     (if sys_writer s = Starting \<or> sys_writer s = Updating
      then (case locked (update composed) s of
              Inl f \<Rightarrow> Inl f
            | Inr s' \<Rightarrow> Inr (s'\<lparr>sys_writer := Selecting\<rparr>))
      else Inl NotEnabled)"
| "step SelectTimer s =
     (if sys_writer s = Selecting then Inr (s\<lparr>sys_writer := Updating\<rparr>) else Inl NotEnabled)"
| "step SelectFinishChan s =
     (if sys_writer s = Selecting \<and> b_finishChan (sys_bar s) = Closed
      then Inr (s\<lparr>sys_writer := Returned\<rparr>) else Inl NotEnabled)"
| "step (CallPrintln line) s = locked (\<lambda>(b, printed). Inr (Println line b, printed)) s"
| "step (CallSetPrefix prefix) s = locked (\<lambda>(b, printed). Inr (SetPrefix prefix b, printed)) s"
| "step (CallSetPostfix postfix) s = locked (\<lambda>(b, printed). Inr (SetPostfix postfix b, printed)) s"
| "step (CallSetScale scale) s = locked (\<lambda>(b, printed). Inr (SetScale scale b, printed)) s"

fun run :: "event list \<Rightarrow> system \<Rightarrow> fault + system" where
  "run [] s = Inr s"
| "run (e # es) s = (case step e s of Inl f \<Rightarrow> Inl f | Inr s' \<Rightarrow> run es s')"

text \<open>
  \<^verbatim>\<open>New\<close> registers \<^verbatim>\<open>b.finish\<close> with the tracker and starts the writer. The
  state outside the tracker is the bar's system, or the panic that ended it;
  \<^verbatim>\<open>Tracker.Finish\<close> runs the whole of \<^verbatim>\<open>finish\<close> in its own goroutine.
\<close>

definition finish_observer :: "fault + system \<Rightarrow> fault + system" where
  "finish_observer w = (case w of Inl f \<Rightarrow> Inl f | Inr s \<Rightarrow> locked finish s)"

definition probar_New ::
    "(fault + system) tracker \<Rightarrow> probar_Opts \<Rightarrow> (fault + system) tracker \<times> system" where
  "probar_New tr opts0 =
     (let opts = probar_ensureDefaults opts0;
          b = \<lparr>b_opts = opts, b_scale = 1.0, b_finishChan = Open, b_finished = False,
               b_lines = [], b_prefix = [], b_postfix = []\<rparr>
      in (OnFinish finish_observer tr,
          \<lparr>sys_bar = b, sys_printed = [], sys_writer = Starting, sys_finishing = False\<rparr>))"

text \<open>
  What holds of every state the bar reaches, and the line that \<^verbatim>\<open>clear\<close> prints.
\<close>

definition bar_inv :: "system \<Rightarrow> bool" where
  "bar_inv s =
     (0 \<le> p_Width (b_opts (sys_bar s))
      \<and> (if sys_finishing s
          then \<not> b_finished (sys_bar s) \<and> b_finishChan (sys_bar s) = Closed
          else b_finished (sys_bar s) = (b_finishChan (sys_bar s) = Closed))
      \<and> (sys_writer s = Returned \<longrightarrow> b_finishChan (sys_bar s) = Closed))"

definition clear_line :: "int \<Rightarrow> string" where
  "clear_line w = CHR 0x0D # replicate (nat w) CHR '' '' @ [CHR 0x0D]"

section \<open>Fixtures\<close>

text \<open>
  The options of the tests: everything zero, so that \<^verbatim>\<open>New\<close> takes the interval
  of one second. An observer that records its number in a log.
\<close>

definition zero_opts :: Opts where
  "zero_opts = \<lparr>o_ByteAmount = None, o_Value = 0, o_Units = UnitsNone,
                 o_MeasurementInterval = 0\<rparr>"

definition observer :: "nat \<Rightarrow> nat list \<Rightarrow> nat list" where
  "observer i w = w @ [i]"

text \<open>
  A tracker with the default interval of one second that took its first
  sample, 0.6, at clock reading 0; the same with two observers registered; one
  that was paused before that sample; and one that measured a speed: 0 at
  reading 0, then 0.5 one second later.
\<close>

definition anchored :: "nat list tracker" where
  "anchored = SetProgress 0.6 0 0 (New 0 zero_opts)"

definition observed :: "nat list tracker" where
  "observed = OnFinish (observer 2) (OnFinish (observer 1) anchored)"

definition paused_anchored :: "nat list tracker" where
  "paused_anchored = SetProgress 0.6 0 0 (Pause (New 0 zero_opts))"

definition moving :: "nat list tracker" where
  "moving = SetProgress 0.5 1000000000 1000000000 (SetProgress 0 0 0 (New 0 zero_opts))"

text \<open>
  A tracker whose first second brought \<open>2\<^sup>-\<^sup>3\<^sup>4\<close> of the task, and the options
  with an interval of one microsecond.
\<close>

definition crawling :: "nat list tracker" where
  "crawling =
     SetProgress (1 / 2 ^ 34) 1000000000 1000000000 (SetProgress 0 0 0 (New 0 zero_opts))"




text \<open>
  A bar with the default options on a new tracker, and a run of it: the first
  redraw, a line printed by the caller, the timer, a call of \<^verbatim>\<open>finish\<close> while the
  writer waits for the mutex, the redraw, a second call of \<^verbatim>\<open>finish\<close>, and the
  writer receiving from the closed channel.
\<close>

definition plain_opts :: probar_Opts where
  "plain_opts = \<lparr>p_RefreshRate = 0, p_TimeBoxWidth = 0, p_SpeedBoxWidth = 0, p_BarWidth = 0,
                  p_Width = 0, p_ShowSpeed = False, p_ShowTimeLeft = False\<rparr>"

definition shown :: system where
  "shown = snd (probar_New (New 0 zero_opts) plain_opts)"

definition shown_events :: "event list" where
  "shown_events =
     [WriterUpdate ''  0.00% '', CallPrintln ''copying'', SelectTimer, FinishEnter,
      FinishLeave, WriterUpdate '' 50.00% '', FinishEnter, SelectFinishChan]"

section \<open>Facts shared by the proofs\<close>

lemma anchored_fields:
  "paused anchored = False"
  "lastMeasurement anchored = Some \<lparr>m_time = 0, m_value = 0.6\<rparr>"
  "measurementInterval anchored = 1000000000"
  "t_value anchored = 0.6"
  "duration anchored = 0"
  "speed anchored = 0"
  "onFinish anchored = []"
  by (simp_all add: anchored_def SetProgress_def lockedUpdateMeasurement_def New_def
      zero_opts_def ensureDefaults_def clamp_def Second_def Millisecond_def Nanosecond_def
      Let_def)

lemma paused_anchored_fields:
  "paused paused_anchored = True"
  "lastMeasurement paused_anchored = Some \<lparr>m_time = 0, m_value = 0.6\<rparr>"
  "measurementInterval paused_anchored = 1000000000"
  by (simp_all add: paused_anchored_def SetProgress_def lockedUpdateMeasurement_def New_def
      Pause_def lockedResetMeasurement_def zero_opts_def ensureDefaults_def clamp_def
      Second_def Millisecond_def Nanosecond_def Let_def)

lemma moving_fields:
  "paused moving = False"
  "lastMeasurement moving = Some \<lparr>m_time = 1000000000, m_value = 0.5\<rparr>"
  "measurementInterval moving = 1000000000"
  "t_value moving = 0.5"
  "duration moving = 1000000000"
  "speed moving = 0.5"
  "speedAverage moving = \<lparr>a_value = 0.5\<rparr>"
  "minSpeed moving = 0.5"
  "maxSpeed moving = 0.5"
  "byteAmount moving = None"
  "onFinish moving = []"
  by (simp_all add: moving_def SetProgress_def lockedUpdateMeasurement_def New_def
      zero_opts_def ensureDefaults_def clamp_def Second_def Millisecond_def Nanosecond_def
      Seconds_def Add_def Value_def ewma_New_def MaxFloat64_def Let_def)


lemma Seconds_pos: "0 < d \<Longrightarrow> 0 < Seconds d"
  by (simp add: Seconds_def)

lemma fold_observer: "fold (\<lambda>cb. cb) (map observer ids) w = w @ ids"
  by (induction ids arbitrary: w) (simp_all add: observer_def)

lemma Finish_observers: "fst (Finish now t w) = fold (\<lambda>cb. cb) (onFinish t) w"
  by (simp add: Finish_def Let_def)

lemma Finish_result:
  "Finish now t w = (w', t', cs) \<Longrightarrow>
     t' = (case lastMeasurement t of
             None \<Rightarrow> t
           | Some lm \<Rightarrow> t\<lparr>duration := duration t + (now - m_time lm),
                          lastMeasurement := None\<rparr>)
     \<and> cs = \<lparr>cs_duration = duration t', cs_averageSpeed = 1 / Seconds (duration t'),
              cs_minSpeed = minSpeed t', cs_maxSpeed = maxSpeed t',
              cs_byteAmount = byteAmount t'\<rparr>"
  by (auto simp: Finish_def Let_def)

lemma Finish_clears_anchor: "lastMeasurement (fst (snd (Finish now t w))) = None"
  by (simp add: Finish_def Let_def split: option.splits)

lemma Finish_no_anchor: "lastMeasurement t = None \<Longrightarrow> fst (snd (Finish now t w)) = t"
  by (simp add: Finish_def Let_def)



lemma wrap64_id: "- (2 ^ 63) \<le> n \<Longrightarrow> n < 2 ^ 63 \<Longrightarrow> wrap64 n = n"
  by (simp add: wrap64_def)

lemma trunc_nonneg: "0 \<le> x \<Longrightarrow> 0 \<le> trunc x \<and> real_of_int (trunc x) \<le> x"
  by (simp add: trunc_def)

lemma timeLeft_nonneg:
  assumes "0 \<le> x" "x * 1000000 < 2 ^ 63"
  shows "wrap64 (Millisecond * float64_to_int64 oor x) = 1000000 * trunc x" 
proof -
  have a: "0 \<le> trunc x" "real_of_int (trunc x) \<le> x" using trunc_nonneg[OF assms(1)] by simp_all
  have "real_of_int (trunc x) * 1000000 < 2 ^ 63" using a(2) assms(2) by simp
  then have "real_of_int (trunc x * 1000000) < real_of_int (2 ^ 63)" by simp
  then have b: "trunc x * 1000000 < 2 ^ 63" by (simp only: of_int_less_iff)
  then have c: "trunc x < 2 ^ 63" using a(1) by simp
  have "float64_to_int64 oor x = trunc x" using a(1) c by (simp add: float64_to_int64_def)
  then show ?thesis using a(1) b by (simp add: Millisecond_def Nanosecond_def wrap64_id)
qed

lemma trunc_neg: "x \<le> - 1 \<Longrightarrow> trunc x \<le> - 1 \<and> x \<le> real_of_int (trunc x)"
  by (auto simp add: trunc_def ceiling_le_iff)

lemma timeLeft_neg:
  assumes "x \<le> - 1" "- (2 ^ 63) \<le> x * 1000000"
  shows "wrap64 (Millisecond * float64_to_int64 oor x) = 1000000 * trunc x \<and> 1000000 * trunc x < 0" 
proof -
  have a: "trunc x \<le> - 1" "x \<le> real_of_int (trunc x)" using trunc_neg[OF assms(1)] by simp_all
  have "- (2 ^ 63) \<le> real_of_int (trunc x) * 1000000" using a(2) assms(2) by simp
  then have "real_of_int (- (2 ^ 63)) \<le> real_of_int (trunc x * 1000000)" by simp
  then have b: "- (2 ^ 63) \<le> trunc x * 1000000" by (simp only: of_int_le_iff)
  then have c: "- (2 ^ 63) \<le> trunc x" using a(1) by simp
  have "float64_to_int64 oor x = trunc x" using a(1) c by (simp add: float64_to_int64_def)
  then show ?thesis using a(1) b by (simp add: Millisecond_def Nanosecond_def wrap64_id)
qed












lemma Add_nonneg:
  "0 \<le> Value a \<Longrightarrow> 0 \<le> x \<Longrightarrow> 0 \<le> Value (Add a x) \<and> (x = 0 \<or> 0 < Value (Add a x))"
  by (auto simp: Add_def Value_def decay_def averageMetricAge_def add_nonneg_pos)

lemma reset_inv: "0 < measurementInterval t \<Longrightarrow> speed_inv (lockedResetMeasurement t)"
  by (simp add: speed_inv_def lockedResetMeasurement_def Value_def ewma_New_def)

lemma accepted_speed:
  "0 < d \<Longrightarrow> 0 \<le> dv \<Longrightarrow> 0 \<le> dv / Seconds d"
  by (simp add: Seconds_def)

lemma update_inv:
  assumes "speed_inv t"
  shows "speed_inv (lockedUpdateMeasurement now now2 v t)"
proof -
  have i: "0 < measurementInterval t" using assms by (simp add: speed_inv_def)
  define t0 where "t0 = (if paused t then lockedResetMeasurement t else t)"
  have t0: "speed_inv t0" using assms reset_inv[OF i] by (simp add: t0_def)
  have i0: "0 < measurementInterval t0" using t0 by (simp add: speed_inv_def)
  show ?thesis
  proof (cases "lastMeasurement t0")
    case None
    then show ?thesis using t0
      by (simp add: lockedUpdateMeasurement_def t0_def[symmetric] speed_inv_def)
  next
    case (Some lm)
    show ?thesis
    proof (cases "now2 - m_time lm < measurementInterval t0")
      case True
      then show ?thesis using t0 Some
        by (simp add: lockedUpdateMeasurement_def t0_def[symmetric] Let_def)
    next
      case False
      then have d: "0 < now2 - m_time lm" using i0 by simp
      show ?thesis
      proof (cases "v - m_value lm < 0")
        case True
        then show ?thesis using Some False reset_inv[of "t0\<lparr>duration := duration t0 + (now2 - m_time lm)\<rparr>"] i0
          by (simp add: lockedUpdateMeasurement_def t0_def[symmetric] Let_def)
      next
        case nonreg: False
        define s where "s = (v - m_value lm) / Seconds (now2 - m_time lm)"
        have s: "0 \<le> s" using accepted_speed[OF d, of "v - m_value lm"] nonreg by (simp add: s_def)
        have a: "0 \<le> Value (speedAverage t0)" using t0 by (simp add: speed_inv_def)
        note A = Add_nonneg[OF a s]
        show ?thesis using Some False nonreg A s i0
          by (simp add: lockedUpdateMeasurement_def t0_def[symmetric] Let_def s_def[symmetric] speed_inv_def)
      qed
    qed
  qed
qed

lemma do_call_inv: "speed_inv (fst s) \<Longrightarrow> speed_inv (fst (do_call c s))"
proof (cases c; cases s)
  fix v now now2 t w
  assume "speed_inv (fst s)" "c = CallSetProgress v now now2" "s = (t, w)"
  then show ?thesis using update_inv[of t now now2 "clamp v"]
    by (simp add: SetProgress_def Let_def speed_inv_def)
next
  fix t w assume "speed_inv (fst s)" "c = CallPause" "s = (t, w)"
  then show ?thesis using reset_inv[of "t\<lparr>paused := True\<rparr>"] by (simp add: Pause_def speed_inv_def)
next
  fix t w assume "speed_inv (fst s)" "c = CallResume" "s = (t, w)"
  then show ?thesis using reset_inv[of "t\<lparr>paused := False\<rparr>"] by (simp add: Resume_def speed_inv_def)
next
  fix cb t w assume "speed_inv (fst s)" "c = CallOnFinish cb" "s = (t, w)"
  then show ?thesis by (simp add: OnFinish_def speed_inv_def)
next
  fix now t w assume "speed_inv (fst s)" "c = CallFinish now" "s = (t, w)"
  then show ?thesis by (simp add: Finish_def Let_def speed_inv_def split: option.splits)
qed

lemma do_calls_inv: "speed_inv (fst s) \<Longrightarrow> speed_inv (fst (do_calls cs s))"
  unfolding do_calls_def
proof (induction cs arbitrary: s)
  case Nil
  then show ?case by simp
next
  case (Cons c cs)
  show ?case using Cons.IH[OF do_call_inv[OF Cons.prems]] by simp
qed

lemma New_inv: "0 \<le> o_MeasurementInterval opts \<Longrightarrow> speed_inv (New now opts)"
  by (simp add: New_def ensureDefaults_def speed_inv_def Let_def Value_def ewma_New_def
       Second_def Millisecond_def Nanosecond_def)

lemma crawling_fields:
  "speed crawling = 1 / 2 ^ 34" "speedAverage crawling = \<lparr>a_value = 1 / 2 ^ 34\<rparr>"
  "t_value crawling = 1 / 2 ^ 34" "lastMeasurement crawling = Some \<lparr>m_time = 1000000000, m_value = 1 / 2 ^ 34\<rparr>"
  "byteAmount crawling = None"
  by (simp_all add: crawling_def SetProgress_def lockedUpdateMeasurement_def New_def
      zero_opts_def ensureDefaults_def clamp_def Second_def Millisecond_def Nanosecond_def
      Seconds_def Add_def Value_def ewma_New_def MaxFloat64_def Let_def)

lemma Repeat_space: "0 \<le> n \<Longrightarrow> Repeat '' '' n = Inr (replicate (nat n) CHR '' '')"
  by (simp add: Repeat_def)

lemma clear_ok:
  "0 \<le> p_Width (b_opts b) \<Longrightarrow>
     clear (b, printed) = Inr (b, printed @ [clear_line (p_Width (b_opts b))])"
  by (simp add: clear_def Repeat_space clear_line_def)

lemma chan_cases: "c \<noteq> Closed \<Longrightarrow> c = Open"
  by (cases c) simp_all

lemma bar_write_ok:
  "0 \<le> p_Width (b_opts b) \<Longrightarrow>
     \<exists>b' p'. bar_write composed (b, printed) = Inr (b', p')
       \<and> b_opts b' = b_opts b \<and> b_finished b' = b_finished b
       \<and> b_finishChan b' = b_finishChan b"
  by (simp add: bar_write_def clear_ok)

lemma FinishEnter_first:
  assumes "bar_inv s" "\<not> sys_finishing s" "\<not> b_finished (sys_bar s)"
  shows "step FinishEnter s =
     Inr (s\<lparr>sys_bar := (sys_bar s)\<lparr>b_finishChan := Closed\<rparr>, sys_finishing := True\<rparr>)"
proof -
  have "b_finishChan (sys_bar s) \<noteq> Closed" using assms by (simp add: bar_inv_def)
  then have "b_finishChan (sys_bar s) = Open" by (rule chan_cases)
  then show ?thesis using assms(2,3) by (simp add: finish_begin_def close_chan_def)
qed

lemma FinishEnter_again:
  "\<not> sys_finishing s \<Longrightarrow> b_finished (sys_bar s) \<Longrightarrow> step FinishEnter s = Inr s"
  by (simp add: finish_begin_def)

lemma FinishLeave_ok:
  assumes "bar_inv s" "sys_finishing s"
  shows "step FinishLeave s =
     Inr (s\<lparr>sys_bar := (sys_bar s)\<lparr>b_finished := True\<rparr>,
            sys_printed := sys_printed s @ [clear_line (p_Width (b_opts (sys_bar s)))],
            sys_finishing := False\<rparr>)"
proof -
  have w: "0 \<le> p_Width (b_opts ((sys_bar s)\<lparr>b_finished := True\<rparr>))"
    using assms(1) by (simp add: bar_inv_def)
  show ?thesis using assms(2) clear_ok[OF w, of "sys_printed s"] by (simp add: finish_end_def)
qed

lemma finish_call_first:
  assumes "bar_inv s" "\<not> sys_finishing s" "\<not> b_finished (sys_bar s)"
  shows "locked finish s =
     Inr (s\<lparr>sys_bar := (sys_bar s)\<lparr>b_finishChan := Closed, b_finished := True\<rparr>,
            sys_printed := sys_printed s @ [clear_line (p_Width (b_opts (sys_bar s)))]\<rparr>)"
proof -
  have "b_finishChan (sys_bar s) \<noteq> Closed" using assms by (simp add: bar_inv_def)
  then have o: "b_finishChan (sys_bar s) = Open" by (rule chan_cases)
  have w: "0 \<le> p_Width (b_opts ((sys_bar s)\<lparr>b_finishChan := Closed, b_finished := True\<rparr>))"
    using assms(1) by (simp add: bar_inv_def)
  show ?thesis
    using assms(2,3) o clear_ok[OF w, of "sys_printed s"]
    by (simp add: locked_def finish_def finish_begin_def finish_end_def close_chan_def)
qed

lemma finish_call_again:
  "\<not> sys_finishing s \<Longrightarrow> b_finished (sys_bar s) \<Longrightarrow> locked finish s = Inr s"
  by (simp add: locked_def finish_def finish_begin_def)

lemma finish_call_steps:
  assumes "bar_inv s" "\<not> sys_finishing s"
  shows "locked finish s =
     (case step FinishEnter s of
        Inl f \<Rightarrow> Inl f
      | Inr s1 \<Rightarrow> if sys_finishing s1 then step FinishLeave s1 else Inr s1)"
proof (cases "b_finished (sys_bar s)")
  case True
  then show ?thesis using assms(2) finish_call_again[OF assms(2) True] FinishEnter_again[OF assms(2) True]
    by simp
next
  case False
  let ?s1 = "s\<lparr>sys_bar := (sys_bar s)\<lparr>b_finishChan := Closed\<rparr>, sys_finishing := True\<rparr>"
  have i: "bar_inv ?s1" using assms False by (simp add: bar_inv_def)
  have e: "s\<lparr>sys_bar := b, sys_printed := p, sys_finishing := False\<rparr>
      = s\<lparr>sys_bar := b, sys_printed := p\<rparr>" for b p
    using assms(2) by (cases s) simp
  show ?thesis
    using finish_call_first[OF assms False] FinishEnter_first[OF assms False]
      FinishLeave_ok[OF i]
    by (simp add: e)
qed

lemma step_inv:
  assumes "bar_inv s" "step e s = Inr s'"
  shows "bar_inv s'"
proof (cases e)
  case FinishEnter
  show ?thesis
  proof (cases "b_finished (sys_bar s)")
    case True
    then show ?thesis using assms FinishEnter
      by (auto simp: finish_begin_def bar_inv_def split: if_splits)
  next
    case False
    then show ?thesis using assms FinishEnter FinishEnter_first[OF assms(1) _ False]
      by (auto simp: bar_inv_def split: if_splits)
  qed
next
  case FinishLeave
  then show ?thesis using assms FinishLeave_ok[OF assms(1)]
    by (auto simp: bar_inv_def split: if_splits)
next
  case (WriterUpdate composed)
  have w: "0 \<le> p_Width (b_opts (sys_bar s))" using assms(1) by (simp add: bar_inv_def)
  from bar_write_ok[OF w, of composed "sys_printed s"]
  obtain b' p' where b: "bar_write composed (sys_bar s, sys_printed s) = Inr (b', p')"
      "b_opts b' = b_opts (sys_bar s)" "b_finished b' = b_finished (sys_bar s)"
      "b_finishChan b' = b_finishChan (sys_bar s)"
    by blast
  show ?thesis using assms WriterUpdate b
    by (auto simp: bar_inv_def locked_def update_def split: if_splits)
next
  case SelectTimer
  then show ?thesis using assms by (auto simp: bar_inv_def split: if_splits)
next
  case SelectFinishChan
  then show ?thesis using assms by (auto simp: bar_inv_def split: if_splits)
next
  case (CallPrintln x)
  then show ?thesis using assms by (auto simp: bar_inv_def locked_def Println_def split: if_splits)
next
  case (CallSetPrefix x)
  then show ?thesis using assms by (auto simp: bar_inv_def locked_def SetPrefix_def split: if_splits)
next
  case (CallSetPostfix x)
  then show ?thesis using assms by (auto simp: bar_inv_def locked_def SetPostfix_def split: if_splits)
next
  case (CallSetScale x)
  then show ?thesis using assms by (auto simp: bar_inv_def locked_def SetScale_def split: if_splits)
qed

lemma run_inv: "bar_inv s \<Longrightarrow> run es s = Inr s' \<Longrightarrow> bar_inv s'"
proof (induction es arbitrary: s)
  case Nil
  then show ?case by simp
next
  case (Cons e es)
  from Cons.prems(2) obtain s1 where s1: "step e s = Inr s1" "run es s1 = Inr s'"
    by (auto split: sum.splits)
  show ?case using Cons.IH[OF step_inv[OF Cons.prems(1) s1(1)] s1(2)] .
qed

lemma step_no_panic:
  assumes "bar_inv s"
  shows "step e s \<noteq> Inl CloseOfClosedChannel \<and> step e s \<noteq> Inl NegativeRepeatCount"
proof (cases e)
  case FinishEnter
  show ?thesis
  proof (cases "sys_finishing s \<or> b_finished (sys_bar s)")
    case True
    then show ?thesis using FinishEnter by (auto simp: finish_begin_def)
  next
    case False
    then show ?thesis using FinishEnter FinishEnter_first[OF assms] by simp
  qed
next
  case FinishLeave
  then show ?thesis using FinishLeave_ok[OF assms] by (cases "sys_finishing s") simp_all
next
  case (WriterUpdate composed)
  have w: "0 \<le> p_Width (b_opts (sys_bar s))" using assms by (simp add: bar_inv_def)
  from bar_write_ok[OF w, of composed "sys_printed s"]
  obtain b' p' where b: "bar_write composed (sys_bar s, sys_printed s) = Inr (b', p')"
    by blast
  show ?thesis using WriterUpdate b by (simp add: locked_def update_def)
next
  case SelectTimer
  then show ?thesis by simp
next
  case SelectFinishChan
  then show ?thesis by simp
next
  case (CallPrintln x)
  then show ?thesis by (simp add: locked_def)
next
  case (CallSetPrefix x)
  then show ?thesis by (simp add: locked_def)
next
  case (CallSetPostfix x)
  then show ?thesis by (simp add: locked_def)
next
  case (CallSetScale x)
  then show ?thesis by (simp add: locked_def)
qed

lemma step_finished:
  assumes "bar_inv s" "b_finished (sys_bar s)" "step e s = Inr s'"
  shows "b_finished (sys_bar s') \<and> e \<noteq> FinishLeave"
proof -
  have nf: "\<not> sys_finishing s" using assms(1,2) by (auto simp: bar_inv_def split: if_splits)
  show ?thesis
  proof (cases e)
    case FinishEnter
    then show ?thesis using assms FinishEnter_again[OF nf assms(2)] by simp
  next
    case FinishLeave
    then show ?thesis using assms nf by simp
  next
    case (WriterUpdate composed)
    have w: "0 \<le> p_Width (b_opts (sys_bar s))" using assms(1) by (simp add: bar_inv_def)
    from bar_write_ok[OF w, of composed "sys_printed s"]
    obtain b' p' where b: "bar_write composed (sys_bar s, sys_printed s) = Inr (b', p')"
        "b_finished b' = b_finished (sys_bar s)"
      by blast
    show ?thesis using assms WriterUpdate b
      by (auto simp: locked_def update_def split: if_splits)
  next
    case SelectTimer
    then show ?thesis using assms by (auto split: if_splits)
  next
    case SelectFinishChan
    then show ?thesis using assms by (auto split: if_splits)
  next
    case (CallPrintln x)
    then show ?thesis using assms by (auto simp: locked_def Println_def split: if_splits)
  next
    case (CallSetPrefix x)
    then show ?thesis using assms by (auto simp: locked_def SetPrefix_def split: if_splits)
  next
    case (CallSetPostfix x)
    then show ?thesis using assms by (auto simp: locked_def SetPostfix_def split: if_splits)
  next
    case (CallSetScale x)
    then show ?thesis using assms by (auto simp: locked_def SetScale_def split: if_splits)
  qed
qed

lemma step_unfinished:
  assumes "\<not> b_finished (sys_bar s)" "step e s = Inr s'" "e \<noteq> FinishLeave"
  shows "\<not> b_finished (sys_bar s')"
  using assms
  by (cases e)
     (auto simp: locked_def finish_begin_def update_def bar_write_def clear_def
        Println_def SetPrefix_def SetPostfix_def SetScale_def
        split: if_splits sum.splits prod.splits)

lemma run_finished:
  "bar_inv s \<Longrightarrow> b_finished (sys_bar s) \<Longrightarrow> run es s = Inr s' \<Longrightarrow>
     b_finished (sys_bar s') \<and> FinishLeave \<notin> set es"
proof (induction es arbitrary: s)
  case Nil
  then show ?case by simp
next
  case (Cons e es)
  from Cons.prems(3) obtain s1 where s1: "step e s = Inr s1" "run es s1 = Inr s'"
    by (auto split: sum.splits)
  note a = step_finished[OF Cons.prems(1,2) s1(1)]
  show ?case
    using Cons.IH[OF step_inv[OF Cons.prems(1) s1(1)] _ s1(2)] a by auto
qed

lemma run_FinishLeave_once:
  "bar_inv s \<Longrightarrow> run es s = Inr s' \<Longrightarrow> count_list es FinishLeave \<le> 1"
proof (induction es arbitrary: s)
  case Nil
  then show ?case by simp
next
  case (Cons e es)
  from Cons.prems(2) obtain s1 where s1: "step e s = Inr s1" "run es s1 = Inr s'"
    by (auto split: sum.splits)
  note i1 = step_inv[OF Cons.prems(1) s1(1)]
  show ?case
  proof (cases "e = FinishLeave")
    case True
    have "sys_finishing s" using s1(1) True by (auto split: if_splits)
    then have "b_finished (sys_bar s1)"
      using s1(1) True FinishLeave_ok[OF Cons.prems(1)] by auto
    from run_finished[OF i1 this s1(2)] have "count_list es FinishLeave = 0"
      by (simp add: count_list_0_iff)
    then show ?thesis using True by simp
  next
    case False
    then show ?thesis using Cons.IH[OF i1 s1(2)] by simp
  qed
qed

lemma step_Returned:
  assumes "sys_writer s = Returned" "step e s = Inr s'"
  shows "sys_writer s' = Returned \<and> (\<forall>c. e \<noteq> WriterUpdate c)"
  using assms
  by (cases e) (auto simp: locked_def finish_begin_def finish_end_def
      split: if_splits sum.splits prod.splits)

lemma run_Returned:
  "sys_writer s = Returned \<Longrightarrow> run es s = Inr s' \<Longrightarrow>
     sys_writer s' = Returned \<and> (\<forall>c. WriterUpdate c \<notin> set es)"
proof (induction es arbitrary: s)
  case Nil
  then show ?case by simp
next
  case (Cons e es)
  from Cons.prems(2) obtain s1 where s1: "step e s = Inr s1" "run es s1 = Inr s'"
    by (auto split: sum.splits)
  note a = step_Returned[OF Cons.prems(1) s1(1)]
  show ?case using Cons.IH[OF _ s1(2)] a by auto
qed

lemma run_finished_iff:
  "bar_inv s \<Longrightarrow> \<not> b_finished (sys_bar s) \<Longrightarrow> run es s = Inr s' \<Longrightarrow>
     b_finished (sys_bar s') = (count_list es FinishLeave = 1)"
proof (induction es arbitrary: s)
  case Nil
  then show ?case by simp
next
  case (Cons e es)
  from Cons.prems(3) obtain s1 where s1: "step e s = Inr s1" "run es s1 = Inr s'"
    by (auto split: sum.splits)
  note i1 = step_inv[OF Cons.prems(1) s1(1)]
  show ?case
  proof (cases "e = FinishLeave")
    case True
    have "sys_finishing s" using s1(1) True by (auto split: if_splits)
    then have f1: "b_finished (sys_bar s1)"
      using s1(1) True FinishLeave_ok[OF Cons.prems(1)] by auto
    from run_finished[OF i1 f1 s1(2)]
    have "b_finished (sys_bar s')" "count_list es FinishLeave = 0"
      by (simp_all add: count_list_0_iff)
    then show ?thesis using True by simp
  next
    case False
    have "\<not> b_finished (sys_bar s1)"
      using step_unfinished[OF Cons.prems(2) s1(1) False] .
    from Cons.IH[OF i1 this s1(2)] show ?thesis using False by simp
  qed
qed

lemma New_bar_inv:
  "0 \<le> p_Width opts \<Longrightarrow> probar_New tr opts = (tr', s0) \<Longrightarrow>
     bar_inv s0 \<and> \<not> b_finished (sys_bar s0) \<and> sys_writer s0 = Starting
     \<and> sys_printed s0 = [] \<and> onFinish tr' = onFinish tr @ [finish_observer]"
  by (auto simp: probar_New_def probar_ensureDefaults_def Let_def bar_inv_def OnFinish_def)

lemma shown_fields:
  "sys_writer shown = Starting" "sys_printed shown = []" "sys_finishing shown = False"
  "b_finished (sys_bar shown) = False" "b_finishChan (sys_bar shown) = Open"
  "p_Width (b_opts (sys_bar shown)) = 80" "b_lines (sys_bar shown) = []"
  by (simp_all add: shown_def probar_New_def probar_ensureDefaults_def plain_opts_def Let_def)

lemma shown_run:
  "run shown_events shown =
     Inr (shown\<lparr>sys_bar := (sys_bar shown)\<lparr>b_finishChan := Closed, b_finished := True,
                                               b_lines := []\<rparr>,
                 sys_printed := [CHR 0x0D # ''  0.00% '', clear_line 80,
                                 clear_line 80, ''copying'' @ [CHR 0x0A],
                                 CHR 0x0D # '' 50.00% ''],
                 sys_writer := Returned\<rparr>)"
  by (simp add: shown_events_def shown_fields locked_def update_def bar_write_def clear_ok
      finish_begin_def finish_end_def close_chan_def Println_def)

section \<open>Finish and its observers\<close>

text \<open>
  Claim C1, as the specification states it: on a tracker with registered
  observers, two calls of \<^verbatim>\<open>Finish()\<close> invoke each observer exactly once, in
  registration order. The code has no finished flag: the second call runs every
  observer again. With observers 1 and 2 the log reads 1, 2, 1, 2.
\<close>

theorem Finish_twice_counterexample:
  "snd (do_calls [CallOnFinish (observer 1), CallOnFinish (observer 2),
                  CallFinish 5, CallFinish 6] (New 0 zero_opts, []))
     = [1, 2, 1, 2]
   \<and> snd (do_calls [CallOnFinish (observer 1), CallOnFinish (observer 2),
                    CallFinish 5, CallFinish 6] (New 0 zero_opts, []))
     \<noteq> [1, 2]"
  by (simp add: do_calls_def OnFinish_def Finish_def New_def Let_def observer_def)

text \<open>
  Claim C1, amended: every call of \<^verbatim>\<open>Finish()\<close> invokes each registered observer
  once, in registration order, so two calls invoke each observer twice; the
  second call leaves the tracker as the first left it and reports the same
  duration and the same statistics. (\<open>ids\<close> are the observers' numbers in
  registration order, \<open>w\<close> the log before the first call.)
\<close>

theorem Finish_twice:
  assumes "onFinish t = map observer ids"
    and "Finish n1 t w = (w1, t1, cs1)"
    and "Finish n2 t1 w1 = (w2, t2, cs2)"
  shows "w1 = w @ ids \<and> w2 = w @ ids @ ids \<and> onFinish t1 = onFinish t
       \<and> t2 = t1 \<and> Duration t2 = Duration t1
       \<and> cs_duration cs2 = cs_duration cs1 \<and> cs2 = cs1"
proof -
  have w1: "w1 = w @ ids"
    using assms(1,2) Finish_observers[of n1 t w] by (simp add: fold_observer)
  have obs: "onFinish t1 = onFinish t"
    using assms(2) by (auto simp: Finish_def Let_def split: option.splits)
  have w2: "w2 = w1 @ ids"
    using assms(1,3) obs Finish_observers[of n2 t1 w1] by (simp add: fold_observer)
  have none: "lastMeasurement t1 = None"
    using assms(2) Finish_clears_anchor[of n1 t w] by simp
  have t2: "t2 = t1"
    using assms(3) Finish_no_anchor[OF none, of n2 w1] by simp
  have cs: "cs2 = cs1"
    using Finish_result[OF assms(2)] Finish_result[OF assms(3)] none by simp
  show ?thesis using w1 w2 obs t2 cs by simp
qed

theorem Finish_twice_witness:
  "onFinish observed = map observer [1, 2]
   \<and> fst (Finish 5 observed []) = [1, 2]
   \<and> fst (Finish 6 (fst (snd (Finish 5 observed []))) (fst (Finish 5 observed [])))
       = [1, 2, 1, 2]
   \<and> cs_duration (snd (snd (Finish 6 (fst (snd (Finish 5 observed [])))
                                      (fst (Finish 5 observed [])))))
       = cs_duration (snd (snd (Finish 5 observed [])))"
proof -
  have h: "onFinish observed = map observer [1, 2]"
    by (simp add: observed_def OnFinish_def anchored_fields)
  obtain w1 t1 cs1 where f1: "Finish 5 observed [] = (w1, t1, cs1)"
    by (cases "Finish 5 observed []")
  obtain w2 t2 cs2 where f2: "Finish 6 t1 w1 = (w2, t2, cs2)"
    by (cases "Finish 6 t1 w1")
  show ?thesis
    using h f1 f2 Finish_twice [OF h f1 f2] by simp
qed

text \<open>
  Claim C8. \<^verbatim>\<open>Finish()\<close> adds to the duration the time since the open anchor,
  if there is one, and clears the anchor; the statistics it returns hold that
  final duration, the tracker's \<^verbatim>\<open>minSpeed\<close>, \<^verbatim>\<open>maxSpeed\<close> and byte amount, and,
  when the final duration is positive, the average speed 1.0 divided by the
  final duration in seconds; the divisor is zero exactly when the final
  duration is.
\<close>

theorem Finish_completion_stats:
  assumes "Finish now t w = (w', t', cs)"
  shows "duration t' = duration t +
           (case lastMeasurement t of None \<Rightarrow> 0 | Some lm \<Rightarrow> now - m_time lm)
     \<and> lastMeasurement t' = None
     \<and> cs_duration cs = duration t'
     \<and> (0 < duration t' \<longrightarrow>
           cs_averageSpeed cs = 1.0 / Seconds (duration t')
         \<and> cs_averageSpeed cs * Seconds (duration t') = 1
         \<and> 0 < cs_averageSpeed cs)
     \<and> (Seconds (duration t') = 0) = (duration t' = 0)
     \<and> cs_minSpeed cs = minSpeed t \<and> cs_maxSpeed cs = maxSpeed t
     \<and> cs_byteAmount cs = byteAmount t"
proof -
  note r = Finish_result[OF assms]
  have t': "duration t' = duration t +
              (case lastMeasurement t of None \<Rightarrow> 0 | Some lm \<Rightarrow> now - m_time lm)
     \<and> lastMeasurement t' = None \<and> minSpeed t' = minSpeed t \<and> maxSpeed t' = maxSpeed t
     \<and> byteAmount t' = byteAmount t"
    using r by (cases "lastMeasurement t") simp_all
  have avg: "cs_averageSpeed cs = 1 / Seconds (duration t')"
    using r by simp
  have pos: "0 < duration t' \<longrightarrow>
      cs_averageSpeed cs * Seconds (duration t') = 1 \<and> 0 < cs_averageSpeed cs"
    using avg Seconds_pos[of "duration t'"] by auto
  have rest: "cs_duration cs = duration t' \<and> cs_minSpeed cs = minSpeed t'
     \<and> cs_maxSpeed cs = maxSpeed t' \<and> cs_byteAmount cs = byteAmount t'"
    using r by simp
  have zero: "(Seconds (duration t') = 0) = (duration t' = 0)"
    by (simp add: Seconds_def)
  show ?thesis using t' avg pos rest zero by simp
qed

text \<open>
  The tracker \<open>moving\<close> went from 0 to 0.5 in its first second; finished two
  seconds later it reports three seconds and the average speed 1/3, where the
  smoothed speed of \<^verbatim>\<open>Stats\<close> is 1/2.
\<close>

theorem Finish_completion_stats_witness:
  "(0::int) < 3000000000
   \<and> duration (fst (snd (Finish 3000000000 moving []))) = 3000000000
   \<and> lastMeasurement (fst (snd (Finish 3000000000 moving []))) = None
   \<and> cs_duration (snd (snd (Finish 3000000000 moving []))) = 3000000000
   \<and> cs_averageSpeed (snd (snd (Finish 3000000000 moving []))) = 1 / 3
   \<and> cs_minSpeed (snd (snd (Finish 3000000000 moving []))) = 1 / 2
   \<and> cs_maxSpeed (snd (snd (Finish 3000000000 moving []))) = 1 / 2
   \<and> cs_byteAmount (snd (snd (Finish 3000000000 moving []))) = None
   \<and> Value (speedAverage moving) = 1 / 2"
  using Finish_completion_stats [where now = 3000000000 and t = moving and w = "[]"
      and w' = "fst (Finish 3000000000 moving [])"
      and t' = "fst (snd (Finish 3000000000 moving []))"
      and cs = "snd (snd (Finish 3000000000 moving []))"]
  by (simp add: moving_fields Seconds_def Value_def)

section \<open>SetProgress\<close>




text \<open>
  Claim C6. On an unpaused tracker that holds an anchor, \<^verbatim>\<open>SetProgress(v)\<close>
  called less than one \<^verbatim>\<open>measurementInterval\<close> after the anchor changes the
  current value only: the speed, \<^verbatim>\<open>minSpeed\<close>, \<^verbatim>\<open>maxSpeed\<close>, the duration, both
  moving averages and the anchor stay as they were.
\<close>

theorem SetProgress_within_interval:
  assumes "\<not> paused t"
    and "lastMeasurement t = Some lm"
    and "now2 - m_time lm < measurementInterval t"
  shows "SetProgress v now now2 t = t\<lparr>t_value := clamp v\<rparr>
     \<and> speed (SetProgress v now now2 t) = speed t
     \<and> minSpeed (SetProgress v now now2 t) = minSpeed t
     \<and> maxSpeed (SetProgress v now now2 t) = maxSpeed t
     \<and> duration (SetProgress v now now2 t) = duration t
     \<and> speedAverage (SetProgress v now now2 t) = speedAverage t
     \<and> secondsLeftAverage (SetProgress v now now2 t) = secondsLeftAverage t
     \<and> lastMeasurement (SetProgress v now now2 t) = lastMeasurement t"
  using assms by (simp add: SetProgress_def lockedUpdateMeasurement_def Let_def)

theorem SetProgress_within_interval_witness:
  "\<not> paused moving
   \<and> lastMeasurement moving = Some \<lparr>m_time = 1000000000, m_value = 0.5\<rparr>
   \<and> (1999999999 :: int) - 1000000000 < measurementInterval moving
   \<and> SetProgress 0.9 1999999990 1999999999 moving = moving\<lparr>t_value := 0.9\<rparr>
   \<and> speed (SetProgress 0.9 1999999990 1999999999 moving) = 0.5
   \<and> duration (SetProgress 0.9 1999999990 1999999999 moving) = 1000000000
   \<and> lastMeasurement (SetProgress 0.9 1999999990 1999999999 moving)
       = Some \<lparr>m_time = 1000000000, m_value = 0.5\<rparr>"
  using SetProgress_within_interval [where t = moving
      and lm = "\<lparr>m_time = 1000000000, m_value = 0.5\<rparr>"
      and ?now2.0 = 1999999999 and v = "0.9" and now = 1999999990]
  by (simp add: moving_fields clamp_def)

text \<open>
  Claim C2, as the specification states it: after a regression the tracker
  takes the new sample as a fresh anchor. The code returns right after the
  reset, which clears the anchor: the tracker \<open>anchored\<close> (0.6 at reading 0),
  given 0.3 one second later, holds no anchor.
\<close>

theorem SetProgress_regression_counterexample:
  "lastMeasurement (SetProgress 0.3 1000000000 1000000000 anchored) = None
   \<and> lastMeasurement (SetProgress 0.3 1000000000 1000000000 anchored)
       \<noteq> Some \<lparr>m_time = 1000000000, m_value = 0.3\<rparr>"
  by (simp add: SetProgress_def lockedUpdateMeasurement_def lockedResetMeasurement_def
      Let_def clamp_def anchored_fields)

text \<open>
  Claim C2, amended: on a tracker that holds an anchor, if \<^verbatim>\<open>SetProgress(v)\<close> is
  called at least one \<^verbatim>\<open>measurementInterval\<close> after the anchor and the clamped
  \<open>v\<close> is less than the anchor's value, then an unpaused tracker adds the
  elapsed time to the duration, performs the full reset (speed zero, extrema
  and both moving averages as new, anchor cleared) and stores the clamped \<open>v\<close>
  as the current value only, so that no rate is emitted and the next sample
  becomes the anchor; a paused tracker performs the full reset and does take
  the sample (now, clamped \<open>v\<close>) as its anchor.
\<close>

theorem SetProgress_regression:
  assumes "lastMeasurement t = Some lm"
    and "measurementInterval t \<le> now2 - m_time lm"
    and "clamp v < m_value lm"
  shows "(\<not> paused t \<longrightarrow>
            SetProgress v now now2 t =
              (lockedResetMeasurement (t\<lparr>duration := duration t + (now2 - m_time lm)\<rparr>))
                \<lparr>t_value := clamp v\<rparr>
          \<and> lastMeasurement (SetProgress v now now2 t) = None
          \<and> Stats oor (SetProgress v now now2 t) = None)
       \<and> (paused t \<longrightarrow>
            SetProgress v now now2 t =
              (lockedResetMeasurement t)
                \<lparr>lastMeasurement := Some \<lparr>m_time = now, m_value = clamp v\<rparr>,
                  t_value := clamp v\<rparr>
          \<and> Stats oor (SetProgress v now now2 t) = None)
       \<and> speed (SetProgress v now now2 t) = 0
       \<and> minSpeed (SetProgress v now now2 t) = MaxFloat64
       \<and> maxSpeed (SetProgress v now now2 t) = 0
       \<and> speedAverage (SetProgress v now now2 t) = ewma_New 0
       \<and> secondsLeftAverage (SetProgress v now now2 t) = ewma_New 0
       \<and> t_value (SetProgress v now now2 t) = clamp v"
  using assms
  by (simp add: SetProgress_def lockedUpdateMeasurement_def Let_def
      lockedResetMeasurement_def Stats_def)

theorem SetProgress_regression_witness:
  "lastMeasurement anchored = Some \<lparr>m_time = 0, m_value = 0.6\<rparr>
   \<and> measurementInterval anchored \<le> 1000000000 - 0
   \<and> clamp 0.3 < 0.6
   \<and> \<not> paused anchored
   \<and> lastMeasurement (SetProgress 0.3 1000000000 1000000000 anchored) = None
   \<and> speed (SetProgress 0.3 1000000000 1000000000 anchored) = 0
   \<and> duration (SetProgress 0.3 1000000000 1000000000 anchored) = 1000000000
   \<and> t_value (SetProgress 0.3 1000000000 1000000000 anchored) = 0.3
   \<and> lastMeasurement paused_anchored = Some \<lparr>m_time = 0, m_value = 0.6\<rparr>
   \<and> paused paused_anchored
   \<and> lastMeasurement (SetProgress 0.3 1000000000 1000000000 paused_anchored)
       = Some \<lparr>m_time = 1000000000, m_value = 0.3\<rparr>"
  using SetProgress_regression [where t = anchored
      and lm = "\<lparr>m_time = 0, m_value = 0.6\<rparr>"
      and ?now2.0 = 1000000000 and v = "0.3" and now = 1000000000 and oor = 0]
    SetProgress_regression [where t = paused_anchored
      and lm = "\<lparr>m_time = 0, m_value = 0.6\<rparr>"
      and ?now2.0 = 1000000000 and v = "0.3" and now = 1000000000 and oor = 0]
  by (simp add: anchored_fields paused_anchored_fields clamp_def lockedResetMeasurement_def)

section \<open>Stats\<close>

text \<open>
  Claim C4, as the specification states it: the time left of a snapshot is
  \<^verbatim>\<open>nil\<close> if and only if the recomputed \<open>(1 - value) / speedAverage\<close> is negative.
  The code tests the sign of the \<^verbatim>\<open>int64\<close> nanoseconds instead. The tracker
  \<open>crawling\<close> has done \<open>2\<^sup>-\<^sup>3\<^sup>4\<close> of its task in one second: its seconds left are
  \<open>2\<^sup>3\<^sup>4 - 1\<close>, not negative, the product with \<^verbatim>\<open>time.Millisecond\<close> passes \<open>2\<^sup>6\<^sup>3\<close>
  and wraps to a negative duration, and the time left is \<^verbatim>\<open>nil\<close>. (The
  milliseconds fit \<^verbatim>\<open>int64\<close>, so the conversion is the truncation on every
  platform.)
\<close>

theorem Stats_timeLeft_counterexample:
  "Stats 0 crawling =
     Some \<lparr>s_value = 1 / 2 ^ 34, s_speed = 1 / 2 ^ 34, s_timeLeft = None,
           s_byteAmount = None\<rparr>
   \<and> (1.0 - Progress crawling) / Value (speedAverage crawling) = 17179869183
   \<and> \<not> (1.0 - Progress crawling) / Value (speedAverage crawling) < 0"
  by (simp add: Stats_def crawling_fields Let_def Value_def Progress_def wrap64_def
      Millisecond_def Nanosecond_def float64_to_int64_def trunc_def)

text \<open>
  Claim C4, amended: \<^verbatim>\<open>Stats()\<close> returns \<^verbatim>\<open>nil\<close> exactly when the instantaneous
  speed is 0 or the anchor is absent (as on a new tracker and after \<^verbatim>\<open>Pause\<close> or
  \<^verbatim>\<open>Resume\<close>); otherwise it returns a snapshot whose speed is the smoothed
  speed, whose value is the current progress, whose byte amount is the
  configured one, and whose time left is \<^verbatim>\<open>nil\<close> if and only if the \<^verbatim>\<open>int64\<close>
  duration \<^verbatim>\<open>time.Millisecond * time.Duration(secondsLeft * 1000)\<close>, truncated
  toward zero and wrapped around, is negative. Where the milliseconds left are
  not negative and below \<open>2\<^sup>6\<^sup>3 / 10\<^sup>6\<close> the time left is there, the truncated
  milliseconds; where they are at most -1 and not below \<open>- 2\<^sup>6\<^sup>3 / 10\<^sup>6\<close> it is
  \<^verbatim>\<open>nil\<close>.
\<close>

theorem Stats_snapshot:
  "(Stats oor t = None) = (speed t = 0 \<or> lastMeasurement t = None)
   \<and> Stats oor (New now opts :: 'w tracker) = None
   \<and> Stats oor (Pause t) = None
   \<and> Stats oor (Resume t) = None
   \<and> (speed t \<noteq> 0 \<and> lastMeasurement t \<noteq> None \<longrightarrow>
        (\<exists>s. Stats oor t = Some s
           \<and> s_speed s = Value (speedAverage t)
           \<and> s_value s = Progress t
           \<and> s_byteAmount s = byteAmount t
           \<and> (s_timeLeft s = None) =
               (wrap64 (Millisecond * float64_to_int64 oor
                  ((1.0 - Progress t) / Value (speedAverage t) * 1000.0)) < 0)
           \<and> (0 \<le> (1.0 - Progress t) / Value (speedAverage t) * 1000.0
               \<and> (1.0 - Progress t) / Value (speedAverage t) * 1000.0 * 1000000 < 2 ^ 63 \<longrightarrow>
                 s_timeLeft s =
                   Some (1000000 * trunc ((1.0 - Progress t) / Value (speedAverage t) * 1000.0)))
           \<and> ((1.0 - Progress t) / Value (speedAverage t) * 1000.0 \<le> - 1
               \<and> - (2 ^ 63) \<le> (1.0 - Progress t) / Value (speedAverage t) * 1000.0 * 1000000 \<longrightarrow>
                 s_timeLeft s = None)))"
proof -
  define x where "x = (1.0 - Progress t) / Value (speedAverage t) * 1000.0"
  have none: "(Stats oor t = None) = (speed t = 0 \<or> lastMeasurement t = None)"
    by (simp add: Stats_def Let_def)
  have fresh: "Stats oor (New now opts :: 'w tracker) = None \<and> Stats oor (Pause t) = None
      \<and> Stats oor (Resume t) = None"
    by (simp add: Stats_def New_def Pause_def Resume_def lockedResetMeasurement_def Let_def)
  have some: "Stats oor t =
      Some \<lparr>s_value = Progress t, s_speed = Value (speedAverage t),
            s_timeLeft = (if wrap64 (Millisecond * float64_to_int64 oor x) < 0 then None
                          else Some (wrap64 (Millisecond * float64_to_int64 oor x))),
            s_byteAmount = byteAmount t\<rparr>"
    if "speed t \<noteq> 0 \<and> lastMeasurement t \<noteq> None"
    using that by (simp add: Stats_def Let_def x_def Progress_def)
  have pos: "wrap64 (Millisecond * float64_to_int64 oor x) = 1000000 * trunc x \<and> 0 \<le> 1000000 * trunc x"
    if "0 \<le> x \<and> x * 1000000 < 2 ^ 63"
    using that timeLeft_nonneg[of x oor] trunc_nonneg[of x] by simp
  have neg: "wrap64 (Millisecond * float64_to_int64 oor x) < 0"
    if "x \<le> - 1 \<and> - (2 ^ 63) \<le> x * 1000000"
    using that timeLeft_neg[of x oor] by simp
  show ?thesis
    unfolding x_def[symmetric]
    using none fresh some pos neg by auto
qed

text \<open>
  The tracker \<open>moving\<close> has half of the task left at the speed 1/2: one second.
  With its value set to 3 the seconds left are -4.
\<close>

theorem Stats_snapshot_witness:
  "speed moving \<noteq> 0 \<and> lastMeasurement moving \<noteq> None
   \<and> 0 \<le> (1.0 - Progress moving) / Value (speedAverage moving) * 1000.0
   \<and> (1.0 - Progress moving) / Value (speedAverage moving) * 1000.0 * 1000000 < 2 ^ 63
   \<and> Stats 0 moving =
       Some \<lparr>s_value = 1 / 2, s_speed = 1 / 2, s_timeLeft = Some 1000000000,
             s_byteAmount = None\<rparr>
   \<and> (1.0 - Progress (moving\<lparr>t_value := 3\<rparr>))
        / Value (speedAverage (moving\<lparr>t_value := 3\<rparr>)) * 1000.0 \<le> - 1
   \<and> Stats 0 (moving\<lparr>t_value := 3\<rparr>) =
       Some \<lparr>s_value = 3, s_speed = 1 / 2, s_timeLeft = None, s_byteAmount = None\<rparr>"
proof -
  have h: "speed moving \<noteq> 0 \<and> lastMeasurement moving \<noteq> None"
    by (simp add: moving_fields)
  have x: "(1.0 - Progress moving) / Value (speedAverage moving) * 1000.0 = 1000"
    by (simp add: moving_fields Progress_def Value_def)
  have y: "(1.0 - Progress (moving\<lparr>t_value := 3\<rparr>))
        / Value (speedAverage (moving\<lparr>t_value := 3\<rparr>)) * 1000.0 = - 4000"
    by (simp add: moving_fields Progress_def Value_def)
  have tr: "trunc 1000 = 1000" by (simp add: trunc_def)
  from Stats_snapshot [where t = moving and oor = 0] h x tr
  obtain s where s: "Stats 0 moving = Some s" "s_speed s = 1 / 2" "s_value s = 1 / 2"
      "s_byteAmount s = None" "s_timeLeft s = Some 1000000000"
    by (auto simp: moving_fields Progress_def Value_def)
  have a: "Stats 0 moving =
       Some \<lparr>s_value = 1 / 2, s_speed = 1 / 2, s_timeLeft = Some 1000000000,
             s_byteAmount = None\<rparr>"
    using s by (cases s) simp
  from Stats_snapshot [where t = "moving\<lparr>t_value := 3\<rparr>" and oor = 0] h y
  obtain s' where s': "Stats 0 (moving\<lparr>t_value := 3\<rparr>) = Some s'" "s_speed s' = 1 / 2"
      "s_value s' = 3" "s_byteAmount s' = None" "s_timeLeft s' = None"
    by (auto simp: moving_fields Progress_def Value_def)
  have b: "Stats 0 (moving\<lparr>t_value := 3\<rparr>) =
       Some \<lparr>s_value = 3, s_speed = 1 / 2, s_timeLeft = None, s_byteAmount = None\<rparr>"
    using s' by (cases s') simp
  show ?thesis using h x y a b by simp
qed

text \<open>
  Claim C10. On a tracker made by \<^verbatim>\<open>New\<close> with an interval that is not negative
  (0 stands for one second), after any sequence of calls: an instantaneous
  speed other than 0 comes with a positive speed average (\<open>speed_inv\<close>, which
  every call preserves), so whenever \<^verbatim>\<open>Stats()\<close> returns a snapshot the divisor
  \<^verbatim>\<open>speedAverage.Value()\<close> of its seconds left is positive, not zero, and the
  snapshot's \<^verbatim>\<open>Speed()\<close> is positive.
\<close>

theorem Stats_speed_positive:
  assumes "0 \<le> o_MeasurementInterval opts"
    and "do_calls cs (New now opts, w) = (t, w')"
  shows "speed_inv t
     \<and> (speed t \<noteq> 0 \<longrightarrow> 0 < Value (speedAverage t))
     \<and> (\<forall>c. speed_inv (fst (do_call c (t, w'))))
     \<and> (\<forall>s. Stats oor t = Some s \<longrightarrow>
           0 < Value (speedAverage t) \<and> Value (speedAverage t) \<noteq> 0
           \<and> Speed s = Value (speedAverage t) \<and> 0 < Speed s)"
proof -
  have "speed_inv (fst (New now opts, w))"
    using New_inv[OF assms(1)] by simp
  from do_calls_inv[OF this, of cs] assms(2)
  have inv: "speed_inv t" by simp
  then have pos: "speed t \<noteq> 0 \<longrightarrow> 0 < Value (speedAverage t)"
    by (auto simp: speed_inv_def)
  have step: "speed_inv (fst (do_call c (t, w')))" for c
    using do_call_inv[of "(t, w')" c] inv by simp
  have snap: "0 < Value (speedAverage t) \<and> Value (speedAverage t) \<noteq> 0
      \<and> Speed s = Value (speedAverage t) \<and> 0 < Speed s"
    if "Stats oor t = Some s" for s
  proof -
    from that have nz: "speed t \<noteq> 0"
      by (auto simp: Stats_def split: if_splits)
    from that nz have "s_speed s = Value (speedAverage t)"
      by (auto simp: Stats_def Let_def split: if_splits)
    then show ?thesis using pos nz by (simp add: Speed_def)
  qed
  show ?thesis using inv pos step snap by blast
qed

theorem Stats_speed_positive_witness:
  "0 \<le> o_MeasurementInterval zero_opts
   \<and> do_calls [CallSetProgress 0 0 0, CallSetProgress 0.5 1000000000 1000000000]
        (New 0 zero_opts, []) = (moving, [])
   \<and> Stats 0 moving =
       Some \<lparr>s_value = 1 / 2, s_speed = 1 / 2, s_timeLeft = Some 1000000000,
             s_byteAmount = None\<rparr>
   \<and> 0 < Value (speedAverage moving)
   \<and> 0 < Speed \<lparr>s_value = 1 / 2, s_speed = 1 / 2, s_timeLeft = Some 1000000000,
                 s_byteAmount = None\<rparr>"
proof -
  have h1: "0 \<le> o_MeasurementInterval zero_opts"
    by (simp add: zero_opts_def)
  have h2: "do_calls [CallSetProgress 0 0 0, CallSetProgress 0.5 1000000000 1000000000]
        (New 0 zero_opts, []) = (moving, [])"
    by (simp add: do_calls_def moving_def)
  have h3: "Stats 0 moving =
       Some \<lparr>s_value = 1 / 2, s_speed = 1 / 2, s_timeLeft = Some 1000000000,
             s_byteAmount = None\<rparr>"
    by (simp add: Stats_def moving_fields Let_def Value_def wrap64_def Millisecond_def
        Nanosecond_def float64_to_int64_def trunc_def)
  show ?thesis
    using h1 h2 h3 Stats_speed_positive [OF h1 h2, of 0] by simp
qed

section \<open>The time left at a constant rate\<close>




section \<open>The finish handler of the bar\<close>

text \<open>
  Claim C9. \<^verbatim>\<open>probar.New\<close> registers the bar's \<^verbatim>\<open>finish\<close> as a finish observer of
  the tracker, so \<^verbatim>\<open>Tracker.Finish\<close> runs it. In every run of the bar (options
  with a width that is not negative) and every state it reaches: the part of
  \<^verbatim>\<open>finish\<close> that sets the flag and clears the line runs at most once, and has
  run exactly when the flag is set; while no call of \<^verbatim>\<open>finish\<close> is under way the
  flag is set exactly when the channel is closed; a call of \<^verbatim>\<open>finish\<close> on an
  unfinished bar closes the channel, sets the flag and prints the clearing
  line; on a finished bar, and so at every invocation after the first, it
  changes nothing; no step closes a closed channel or panics otherwise; the
  flag stays set; and once the writer has received from the closed channel it
  has returned for good: no redraw is among the later steps.
\<close>

theorem bar_finish_once:
  assumes "0 \<le> p_Width opts"
    and "probar_New tr opts = (tr', s0)"
    and "run es s0 = Inr s"
  shows "onFinish tr' = onFinish tr @ [finish_observer]
     \<and> (onFinish tr = [] \<longrightarrow> fst (Finish now tr' (Inr s)) = locked finish s)
     \<and> count_list es FinishLeave \<le> 1
     \<and> b_finished (sys_bar s) = (count_list es FinishLeave = 1)
     \<and> (\<not> sys_finishing s \<longrightarrow> b_finished (sys_bar s) = (b_finishChan (sys_bar s) = Closed))
     \<and> (\<not> sys_finishing s \<and> \<not> b_finished (sys_bar s) \<longrightarrow>
          locked finish s =
            Inr (s\<lparr>sys_bar := (sys_bar s)\<lparr>b_finishChan := Closed, b_finished := True\<rparr>,
                   sys_printed := sys_printed s @ [clear_line (p_Width (b_opts (sys_bar s)))]\<rparr>))
     \<and> (b_finished (sys_bar s) \<longrightarrow>
          \<not> sys_finishing s \<and> locked finish s = Inr s \<and> step FinishEnter s = Inr s)
     \<and> (\<forall>e. step e s \<noteq> Inl CloseOfClosedChannel \<and> step e s \<noteq> Inl NegativeRepeatCount)
     \<and> (\<forall>es' s'. b_finished (sys_bar s) \<and> run es' s = Inr s' \<longrightarrow>
           b_finished (sys_bar s') \<and> FinishLeave \<notin> set es')
     \<and> (sys_writer s = Returned \<longrightarrow>
          b_finishChan (sys_bar s) = Closed
          \<and> (\<forall>es' s'. run es' s = Inr s' \<longrightarrow>
                sys_writer s' = Returned \<and> (\<forall>c. WriterUpdate c \<notin> set es')))"
proof -
  note n = New_bar_inv[OF assms(1,2)]
  have i0: "bar_inv s0" using n by simp
  have inv: "bar_inv s" using run_inv[OF i0 assms(3)] .
  have reg: "onFinish tr' = onFinish tr @ [finish_observer]" using n by simp
  have fin: "onFinish tr = [] \<longrightarrow> fst (Finish now tr' (Inr s)) = locked finish s"
    using reg by (simp add: Finish_observers finish_observer_def)
  have once: "count_list es FinishLeave \<le> 1"
    using run_FinishLeave_once[OF i0 assms(3)] .
  have flag: "b_finished (sys_bar s) = (count_list es FinishLeave = 1)"
    using run_finished_iff[OF i0 _ assms(3)] n by simp
  have agree: "\<not> sys_finishing s \<longrightarrow>
      b_finished (sys_bar s) = (b_finishChan (sys_bar s) = Closed)"
    using inv by (simp add: bar_inv_def)
  have first: "\<not> sys_finishing s \<and> \<not> b_finished (sys_bar s) \<longrightarrow>
          locked finish s =
            Inr (s\<lparr>sys_bar := (sys_bar s)\<lparr>b_finishChan := Closed, b_finished := True\<rparr>,
                   sys_printed := sys_printed s @ [clear_line (p_Width (b_opts (sys_bar s)))]\<rparr>)"
    using finish_call_first[OF inv] by blast
  have nf: "b_finished (sys_bar s) \<longrightarrow> \<not> sys_finishing s"
    using inv by (auto simp: bar_inv_def split: if_splits)
  have again: "b_finished (sys_bar s) \<longrightarrow>
      \<not> sys_finishing s \<and> locked finish s = Inr s \<and> step FinishEnter s = Inr s"
    using nf finish_call_again[of s] FinishEnter_again[of s] by blast
  have safe: "\<forall>e. step e s \<noteq> Inl CloseOfClosedChannel \<and> step e s \<noteq> Inl NegativeRepeatCount"
    using step_no_panic[OF inv] by blast
  have stays: "\<forall>es' s'. b_finished (sys_bar s) \<and> run es' s = Inr s' \<longrightarrow>
           b_finished (sys_bar s') \<and> FinishLeave \<notin> set es'"
    using run_finished[OF inv] by blast
  have ret: "sys_writer s = Returned \<longrightarrow>
          b_finishChan (sys_bar s) = Closed
          \<and> (\<forall>es' s'. run es' s = Inr s' \<longrightarrow>
                sys_writer s' = Returned \<and> (\<forall>c. WriterUpdate c \<notin> set es'))"
    using run_Returned[of s] inv unfolding bar_inv_def by blast
  show ?thesis
    by (intro conjI reg fin once flag agree first again safe stays ret)
qed

text \<open>
  In the run \<open>shown_events\<close> the timer wins the \<^verbatim>\<open>select\<close> before \<^verbatim>\<open>finish\<close> runs,
  so one redraw follows the clearing line; the second call of \<^verbatim>\<open>finish\<close>
  prints nothing, and after the writer received from the channel a further
  \<^verbatim>\<open>Tracker.Finish\<close> changes nothing.
\<close>

theorem bar_finish_once_witness:
  "0 \<le> p_Width plain_opts
   \<and> probar_New (New 0 zero_opts) plain_opts
       = (OnFinish finish_observer (New 0 zero_opts), shown)
   \<and> count_list shown_events FinishLeave = 1
   \<and> (\<exists>s. run shown_events shown = Inr s
         \<and> sys_printed s =
             [CHR 0x0D # ''  0.00% '', clear_line 80, clear_line 80,
              ''copying'' @ [CHR 0x0A], CHR 0x0D # '' 50.00% '']
         \<and> sys_writer s = Returned
         \<and> b_finished (sys_bar s) \<and> b_finishChan (sys_bar s) = Closed
         \<and> step FinishEnter s = Inr s
         \<and> fst (Finish 9 (OnFinish finish_observer (New 0 zero_opts)) (Inr s)) = Inr s)"
proof -
  have h1: "0 \<le> p_Width plain_opts"
    by (simp add: plain_opts_def)
  have h2: "probar_New (New 0 zero_opts) plain_opts
       = (OnFinish finish_observer (New 0 zero_opts), shown)"
    by (simp add: shown_def probar_New_def Let_def)
  obtain s where h3: "run shown_events shown = Inr s"
      and p: "sys_printed s =
             [CHR 0x0D # ''  0.00% '', clear_line 80, clear_line 80,
              ''copying'' @ [CHR 0x0A], CHR 0x0D # '' 50.00% '']"
      and w: "sys_writer s = Returned"
    using shown_run by simp
  have e: "onFinish (New 0 zero_opts :: (fault + system) tracker) = []"
    by (simp add: New_def Let_def)
  have k: "count_list shown_events FinishLeave = 1"
    by (simp add: shown_events_def)
  note r = bar_finish_once [OF h1 h2 h3, of 9]
  have f: "b_finished (sys_bar s)" using r k by blast
  have c: "b_finishChan (sys_bar s) = Closed" using r w by blast
  have a: "step FinishEnter s = Inr s" "locked finish s = Inr s" using r f by blast+
  have t: "fst (Finish 9 (OnFinish finish_observer (New 0 zero_opts)) (Inr s)) = Inr s"
    using r e a by simp
  show ?thesis using h1 h2 h3 k p w f c a t by blast
qed

section \<open>The moving average\<close>

text \<open>
  Claim C7. \<^verbatim>\<open>Add(x)\<close> on an average whose value is 0 sets the value to exactly
  \<open>x\<close>, whether the 0 is the initial one or was reached by smoothing; on an
  average whose value is not 0 it sets the value to
  \<open>x * decay + value * (1 - decay)\<close>, where \<open>decay = 2 / (5 + 1) = 1 / 3\<close>;
  \<^verbatim>\<open>Value()\<close> returns the current value.
\<close>

theorem average_Add_Value:
  "Value (Add a x) =
     (if Value a = 0 then x else x * decay + Value a * (1 - decay))
   \<and> decay = 2 / (5 + 1) \<and> decay = 1 / 3
   \<and> Value (ewma_New i) = i
   \<and> Value (Add (ewma_New 0) x) = x
   \<and> Value (Add (Add (Add (ewma_New 0) 3) (- 6)) x) = x"
  by (simp add: Value_def Add_def decay_def averageMetricAge_def ewma_New_def)

end
